theory Spec2Isabelle
  imports Main "HOL-Library.Sublist"
begin

section \<open>Data model of the service worker\<close>

text \<open>
  The worker of \<^verbatim>\<open>assets/service-worker.js\<close> sees requests, responses, the
  browser's cache storage and the network. A request carries its method, its full
  URL and the path name that \<^verbatim>\<open>new URL(request.url).pathname\<close> yields (URL parsing
  belongs to the browser, so the parsed path is a field of the request). A response is
  the quadruple the worker builds and inspects. Bodies are byte strings (UTF-8).
\<close>

record request =
  req_method :: string
  url :: string
  pathname :: string

record response =
  status :: nat
  statusText :: string
  headers :: "(string \<times> string) list"
  body :: string

text \<open>
  The JavaScript values that flow through the two strategies: \<^verbatim>\<open>undefined\<close> (what
  \<^verbatim>\<open>cache.match\<close> resolves to on a miss), a \<^verbatim>\<open>Response\<close> object, and a promise that
  will settle to a value. Objects, promises included, are truthy; \<^verbatim>\<open>undefined\<close> is falsy.
  \<^verbatim>\<open>a || b\<close> yields \<open>a\<close> when \<open>a\<close> is truthy and \<open>b\<close> otherwise. The value an
  \<^verbatim>\<open>async\<close> function returns is adopted by its own promise: a returned promise is
  followed until a value that is no promise is reached.
\<close>

datatype jsvalue = Undefined | Resp response | Promise jsvalue

fun truthy :: "jsvalue \<Rightarrow> bool" where
  "truthy Undefined = False"
| "truthy (Resp r) = True"
| "truthy (Promise p) = True"

definition js_or :: "jsvalue \<Rightarrow> jsvalue \<Rightarrow> jsvalue" where
  "js_or a b = (if truthy a then a else b)"

fun settle :: "jsvalue \<Rightarrow> jsvalue" where
  "settle (Promise p) = settle p"
| "settle Undefined = Undefined"
| "settle (Resp r) = Resp r"

text \<open>
  Every call the worker makes to the cache storage, to a cache, to the network or to
  the worker's own life cycle is recorded, in order, in the state's trace. Console
  output is not modelled.
\<close>

datatype effect =
    CachesOpen string
  | CachesKeys
  | CachesDelete string
  | CacheMatch string request
  | CachePut string request response
  | CacheKeys string
  | CacheDelete string request
  | NetFetch request
  | SkipWaiting
  | ClientsClaim

type_synonym cache = "(request \<times> response) list"

text \<open>
  Two things about a write are decided by the browser and not by the worker. First,
  whether the store takes it: \<^verbatim>\<open>cache.put\<close> rejects, among others, a response whose
  \<^verbatim>\<open>Vary\<close> header is \<^verbatim>\<open>*\<close>, a request that is not an http(s) GET and a write over
  quota, and then stores nothing; the worker drops the promise, so it never notices.
  Second, when a write that the worker does not await lands relative to an eviction
  started right after it: before the eviction reads the keys, between that reading and
  the deletions, or after the deletions. Both are fields of the state, next to the
  contents of the caches and the trace.
\<close>

datatype put_timing = BeforeEviction | DuringEviction | AfterEviction

record sw_state =
  storage :: "(string \<times> cache) list"
  accepts :: "request \<Rightarrow> response \<Rightarrow> bool"
  put_lands :: put_timing
  trace :: "effect list"

text \<open>
  The network is a parameter: \<open>None\<close> stands for a \<^verbatim>\<open>fetch\<close> whose promise rejects.
\<close>

type_synonym network = "request \<Rightarrow> response option"

datatype js_error = TypeError

section \<open>The browser's cache storage\<close>

text \<open>
  A cache is the list of its entries in insertion order, the storage the list of the
  named caches in creation order. A \<^verbatim>\<open>put\<close> that the store accepts removes the entry
  stored for the request and appends the new one, and one that it rejects changes
  nothing (\<open>land_put\<close>); \<open>cache_put\<close> is the call with the write landing at once.
  \<^verbatim>\<open>delete\<close> removes the entry of a request; \<^verbatim>\<open>keys\<close> lists the requests in
  insertion order; \<^verbatim>\<open>caches.open\<close> creates a cache that does not exist yet.
\<close>

definition entries :: "string \<Rightarrow> (string \<times> cache) list \<Rightarrow> cache" where
  "entries name stg = (case map_of stg name of None \<Rightarrow> [] | Some c \<Rightarrow> c)"

definition update_cache :: "string \<Rightarrow> (cache \<Rightarrow> cache) \<Rightarrow> (string \<times> cache) list \<Rightarrow> (string \<times> cache) list" where
  "update_cache name f stg = map (\<lambda>(n, c). if n = name then (n, f c) else (n, c)) stg"

definition remove_entry :: "request \<Rightarrow> cache \<Rightarrow> cache" where
  "remove_entry k c = filter (\<lambda>(k', v). k' \<noteq> k) c"

definition log :: "effect \<Rightarrow> sw_state \<Rightarrow> sw_state" where
  "log e st = st\<lparr>trace := trace st @ [e]\<rparr>"

definition caches_open :: "string \<Rightarrow> sw_state \<Rightarrow> sw_state" where
  "caches_open name st =
     log (CachesOpen name)
       (if name \<in> set (map fst (storage st)) then st
        else st\<lparr>storage := storage st @ [(name, [])]\<rparr>)"

definition caches_keys :: "sw_state \<Rightarrow> string list \<times> sw_state" where
  "caches_keys st = (map fst (storage st), log CachesKeys st)"

definition caches_delete :: "string \<Rightarrow> sw_state \<Rightarrow> sw_state" where
  "caches_delete name st =
     log (CachesDelete name) (st\<lparr>storage := filter (\<lambda>(n, c). n \<noteq> name) (storage st)\<rparr>)"

definition stored :: "string \<Rightarrow> request \<Rightarrow> sw_state \<Rightarrow> response option" where
  "stored name k st = map_of (entries name (storage st)) k"

definition cache_match :: "string \<Rightarrow> request \<Rightarrow> sw_state \<Rightarrow> jsvalue \<times> sw_state" where
  "cache_match name k st =
     ((case stored name k st of None \<Rightarrow> Undefined | Some r \<Rightarrow> Resp r),
      log (CacheMatch name k) st)"

definition land_put :: "string \<Rightarrow> request \<Rightarrow> response \<Rightarrow> sw_state \<Rightarrow> sw_state" where
  "land_put name k r st =
     (if accepts st k r
      then st\<lparr>storage := update_cache name (\<lambda>c. remove_entry k c @ [(k, r)]) (storage st)\<rparr>
      else st)"

definition cache_put :: "string \<Rightarrow> request \<Rightarrow> response \<Rightarrow> sw_state \<Rightarrow> sw_state" where
  "cache_put name k r st = land_put name k r (log (CachePut name k r) st)"

definition cache_keys :: "string \<Rightarrow> sw_state \<Rightarrow> request list \<times> sw_state" where
  "cache_keys name st = (map fst (entries name (storage st)), log (CacheKeys name) st)"

definition cache_delete :: "string \<Rightarrow> request \<Rightarrow> sw_state \<Rightarrow> sw_state" where
  "cache_delete name k st =
     log (CacheDelete name k) (st\<lparr>storage := update_cache name (remove_entry k) (storage st)\<rparr>)"

definition fetch :: "network \<Rightarrow> request \<Rightarrow> sw_state \<Rightarrow> response option \<times> sw_state" where
  "fetch net k st = (net k, log (NetFetch k) st)"

section \<open>The worker\<close>

subsection \<open>Constants\<close>

definition CACHE_VERSION :: string where
  "CACHE_VERSION = ''shopify-theme-v1''"

definition STATIC_CACHE :: string where
  "STATIC_CACHE = CACHE_VERSION @ ''-static''"

definition DYNAMIC_CACHE :: string where
  "DYNAMIC_CACHE = CACHE_VERSION @ ''-dynamic''"

definition MAX_DYNAMIC_CACHE_SIZE :: nat where
  "MAX_DYNAMIC_CACHE_SIZE = 50"

subsection \<open>Classification of paths\<close>

text \<open>
  The two regular expressions of the worker use literals, alternation, an optional
  item and the end anchor. \<open>rests r s\<close> lists what is left of \<open>s\<close> after each way
  \<open>r\<close> can match at its start; \<^verbatim>\<open>$\<close> (no \<^verbatim>\<open>m\<close> flag) matches at the end of the
  input only. \<^verbatim>\<open>s.match(r)\<close> searches every start position, and its result is only
  tested for truthiness, so \<open>regex_match\<close> returns a truth value.
\<close>

datatype regex =
    Lit string
  | Seq regex regex
  | Alt regex regex
  | Opt regex
  | EndOfInput

fun rests :: "regex \<Rightarrow> string \<Rightarrow> string list" where
  "rests (Lit w) s = (if prefix w s then [drop (length w) s] else [])"
| "rests (Seq a b) s = concat (map (rests b) (rests a s))"
| "rests (Alt a b) s = rests a s @ rests b s"
| "rests (Opt a) s = rests a s @ [s]"
| "rests EndOfInput s = (if s = [] then [s] else [])"

definition regex_match :: "string \<Rightarrow> regex \<Rightarrow> bool" where
  "regex_match s r = list_ex (\<lambda>i. rests r (drop i s) \<noteq> []) [0..<Suc (length s)]"

text \<open>\<^verbatim>\<open>/\.(css|js|woff2?|ttf|eot)$/\<close>\<close>

definition static_asset_regex :: regex where
  "static_asset_regex =
     Seq (Lit ''.'')
       (Seq (Alt (Lit ''css'') (Alt (Lit ''js'') (Alt (Seq (Lit ''woff'') (Opt (Lit ''2'')))
              (Alt (Lit ''ttf'') (Lit ''eot'')))))
          EndOfInput)"

text \<open>\<^verbatim>\<open>/\.(jpg|jpeg|png|gif|webp|svg|avif)$/\<close>\<close>

definition image_regex :: regex where
  "image_regex =
     Seq (Lit ''.'')
       (Seq (Alt (Lit ''jpg'') (Alt (Lit ''jpeg'') (Alt (Lit ''png'') (Alt (Lit ''gif'')
              (Alt (Lit ''webp'') (Alt (Lit ''svg'') (Lit ''avif'')))))))
          EndOfInput)"

definition isStaticAsset :: "request \<Rightarrow> bool" where
  "isStaticAsset r = regex_match (pathname r) static_asset_regex"

definition isImage :: "request \<Rightarrow> bool" where
  "isImage r = regex_match (pathname r) image_regex"

subsection \<open>Eviction\<close>

text \<open>
  \<^verbatim>\<open>keys.slice(0, keys.length - maxSize)\<close> is taken only when
  \<^verbatim>\<open>keys.length > maxSize\<close>, so it is the first \<open>length keys - maxSize\<close> keys.
\<close>

definition limitCacheSize :: "string \<Rightarrow> nat \<Rightarrow> sw_state \<Rightarrow> sw_state" where
  "limitCacheSize cacheName maxSize st =
     (let st1 = caches_open cacheName st;
          (keys, st2) = cache_keys cacheName st1
      in if length keys > maxSize
         then let keysToDelete = take (length keys - maxSize) keys
              in fold (cache_delete cacheName) keysToDelete st2
         else st2)"

text \<open>
  The same run while a write issued before it is still pending: \<open>landing\<close>, the write
  reaching the store, happens after the keys are read and before the deletions.
\<close>

definition limitCacheSize_with ::
  "(sw_state \<Rightarrow> sw_state) \<Rightarrow> string \<Rightarrow> nat \<Rightarrow> sw_state \<Rightarrow> sw_state" where
  "limitCacheSize_with landing cacheName maxSize st =
     (let st1 = caches_open cacheName st;
          (keys, st2) = cache_keys cacheName st1;
          st3 = landing st2
      in if length keys > maxSize
         then let keysToDelete = take (length keys - maxSize) keys
              in fold (cache_delete cacheName) keysToDelete st3
         else st3)"

subsection \<open>The two strategies\<close>

text \<open>
  A handler's result state is the state once everything the handler started has
  finished; handlers of different events do not interleave. Every call is recorded where
  the program text makes it. The worker awaits neither \<^verbatim>\<open>cache.put\<close> nor, in
  \<open>networkFirst\<close>, \<^verbatim>\<open>limitCacheSize\<close>. In \<open>cacheFirst\<close> nothing else runs after the put,
  so its write simply lands. In \<open>networkFirst\<close> the put is called, then
  \<^verbatim>\<open>limitCacheSize\<close> is called, and the write lands when \<open>put_lands\<close> says: before the
  eviction, between its reading of the keys and its deletions, or after it.

  \<^verbatim>\<open>new Response('Offline', { status: 503 })\<close> gives the body and the status; the status
  text is the empty default, and a body given as a string brings the header
  \<^verbatim>\<open>Content-Type: text/plain;charset=UTF-8\<close>.

  In the \<^verbatim>\<open>catch\<close> block of \<open>cacheFirst\<close> the lookup is not awaited: the left operand of
  \<^verbatim>\<open>||\<close> is the promise of the lookup, and the \<^verbatim>\<open>async\<close> function settles to what the
  chosen operand settles to.
\<close>

definition offline_response :: response where
  "offline_response =
     \<lparr>status = 503, statusText = [],
      headers = [(''Content-Type'', ''text/plain;charset=UTF-8'')], body = ''Offline''\<rparr>"

definition cacheFirst :: "network \<Rightarrow> request \<Rightarrow> sw_state \<Rightarrow> jsvalue \<times> sw_state" where
  "cacheFirst net request st =
     (let st1 = caches_open STATIC_CACHE st;
          (cached, st2) = cache_match STATIC_CACHE request st1
      in if truthy cached then (cached, st2)
         else (case fetch net request st2 of
                 (Some response, st3) \<Rightarrow>
                   if status response = 200
                   then (Resp response, cache_put STATIC_CACHE request response st3)
                   else (Resp response, st3)
               | (None, st3) \<Rightarrow>
                   (let (m, st4) = cache_match STATIC_CACHE request st3
                    in (settle (js_or (Promise m) (Resp offline_response)), st4))))"

text \<open>
  The template literal of the offline page, line by line; the lines are joined by line
  feeds, and characters outside ASCII are written as their UTF-8 bytes.
\<close>

fun join_lines :: "string list \<Rightarrow> string" where
  "join_lines [] = []"
| "join_lines [l] = l"
| "join_lines (l # ls) = l @ CHR 0x0A # join_lines ls"

definition offline_page_lines :: "string list" where
  \<open>offline_page_lines =
    [
     '''',
     ''      <!DOCTYPE html>'',
     ''      <html>'',
     ''        <head>'',
     ''          <meta charset="utf-8">'',
     ''          <meta name="viewport" content="width=device-width,initial-scale=1">'',
     ''          <title>Sin conexi'' @ [CHR 0xC3, CHR 0xB3] @ ''n</title>'',
     ''          <style>'',
     ''            body {'',
     ''              font-family: -apple-system, BlinkMacSystemFont, 'Segoe UI', sans-serif;'',
     ''              display: flex;'',
     ''              align-items: center;'',
     ''              justify-content: center;'',
     ''              min-height: 100vh;'',
     ''              margin: 0;'',
     ''              background: #f5f5f5;'',
     ''              text-align: center;'',
     ''              padding: 20px;'',
     ''            }'',
     ''            .offline-message {'',
     ''              max-width: 400px;'',
     ''            }'',
     ''            h1 {'',
     ''              font-size: 24px;'',
     ''              margin-bottom: 16px;'',
     ''            }'',
     ''            p {'',
     ''              color: #666;'',
     ''              line-height: 1.6;'',
     ''            }'',
     ''            button {'',
     ''              margin-top: 20px;'',
     ''              padding: 12px 24px;'',
     ''              background: #000;'',
     ''              color: #fff;'',
     ''              border: none;'',
     ''              border-radius: 4px;'',
     ''              cursor: pointer;'',
     ''              font-size: 16px;'',
     ''            }'',
     ''          </style>'',
     ''        </head>'',
     ''        <body>'',
     ''          <div class="offline-message">'',
     ''            <h1>'' @ [CHR 0xF0, CHR 0x9F, CHR 0x93, CHR 0xB1] @ '' Sin conexi'' @ [CHR 0xC3, CHR 0xB3] @ ''n</h1>'',
     ''            <p>No hay conexi'' @ [CHR 0xC3, CHR 0xB3] @ ''n a internet. Por favor, verifica tu conexi'' @ [CHR 0xC3, CHR 0xB3] @ ''n e intenta nuevamente.</p>'',
     ''            <button onclick="location.reload()">Reintentar</button>'',
     ''          </div>'',
     ''        </body>'',
     ''      </html>'',
     ''    ''
    ]\<close>

definition offline_page :: response where
  "offline_page =
     \<lparr>status = 503, statusText = ''Service Unavailable'',
      headers = [(''Content-Type'', ''text/html'')],
      body = join_lines offline_page_lines\<rparr>"

definition networkFirst :: "network \<Rightarrow> request \<Rightarrow> sw_state \<Rightarrow> jsvalue \<times> sw_state" where
  "networkFirst net request st =
     (let st1 = caches_open DYNAMIC_CACHE st
      in (case fetch net request st1 of
            (Some response, st2) \<Rightarrow>
              if status response = 200
              then (let st3 = log (CachePut DYNAMIC_CACHE request response) st2;
                        landing = land_put DYNAMIC_CACHE request response
                    in (Resp response,
                        case put_lands st3 of
                          BeforeEviction \<Rightarrow>
                            limitCacheSize DYNAMIC_CACHE MAX_DYNAMIC_CACHE_SIZE (landing st3)
                        | DuringEviction \<Rightarrow>
                            limitCacheSize_with landing DYNAMIC_CACHE MAX_DYNAMIC_CACHE_SIZE st3
                        | AfterEviction \<Rightarrow>
                            landing (limitCacheSize DYNAMIC_CACHE MAX_DYNAMIC_CACHE_SIZE st3)))
              else (Resp response, st2)
          | (None, st2) \<Rightarrow>
              (let (cached, st3) = cache_match DYNAMIC_CACHE request st2
               in if truthy cached then (cached, st3)
                  else (Resp offline_page, st3))))"

subsection \<open>Event listeners\<close>

text \<open>
  A fetch listener that returns without calling \<^verbatim>\<open>respondWith\<close> leaves the request
  to the browser's own network handling.
\<close>

datatype fetch_outcome = PassThrough | RespondWith jsvalue

definition excluded :: "request \<Rightarrow> bool" where
  "excluded r \<longleftrightarrow>
     sublist ''/admin'' (pathname r) \<or> sublist ''/checkout'' (pathname r) \<or>
     sublist ''/cart/add'' (pathname r) \<or> sublist ''/cart/update'' (pathname r)"

definition respondWith :: "jsvalue \<times> sw_state \<Rightarrow> fetch_outcome \<times> sw_state" where
  "respondWith p = (RespondWith (fst p), snd p)"

definition fetch_listener :: "network \<Rightarrow> request \<Rightarrow> sw_state \<Rightarrow> fetch_outcome \<times> sw_state" where
  "fetch_listener net request st =
     (if req_method request \<noteq> ''GET'' then (PassThrough, st)
      else if excluded request then (PassThrough, st)
      else if isStaticAsset request then respondWith (cacheFirst net request st)
      else if isImage request then respondWith (cacheFirst net request st)
      else respondWith (networkFirst net request st))"

definition install_listener :: "sw_state \<Rightarrow> sw_state" where
  "install_listener st = log SkipWaiting (caches_open STATIC_CACHE st)"

definition is_stale :: "string \<Rightarrow> bool" where
  "is_stale cacheName \<longleftrightarrow>
     prefix ''shopify-theme-'' cacheName \<and> cacheName \<noteq> STATIC_CACHE \<and> cacheName \<noteq> DYNAMIC_CACHE"

definition activate_listener :: "sw_state \<Rightarrow> sw_state" where
  "activate_listener st =
     (let (cacheNames, st1) = caches_keys st;
          st2 = fold caches_delete (filter is_stale cacheNames) st1
      in log ClientsClaim st2)"

text \<open>
  A message's \<^verbatim>\<open>data\<close> is either an object, whose \<^verbatim>\<open>action\<close> field may be missing,
  or \<^verbatim>\<open>null\<close>/\<^verbatim>\<open>undefined\<close>, on which reading \<^verbatim>\<open>action\<close> throws.
\<close>

datatype message = NoData | Data "string option"

definition message_listener :: "message \<Rightarrow> sw_state \<Rightarrow> js_error + sw_state" where
  "message_listener msg st =
     (case msg of
        NoData \<Rightarrow> Inl TypeError
      | Data action \<Rightarrow>
          (let st1 = (if action = Some ''skipWaiting'' then log SkipWaiting st else st)
           in if action = Some ''clearCache''
              then (let (cacheNames, st2) = caches_keys st1
                    in Inr (fold caches_delete cacheNames st2))
              else Inr st1))"

section \<open>Auxiliary notions for the statements\<close>

text \<open>
  What deleting a list of keys leaves of an entry list, and what eviction with bound
  \<open>m\<close> leaves of it: every entry whose request is among the first \<open>length c - m\<close> keys
  is removed (see \<open>entries_limitCacheSize\<close>).
\<close>

definition drop_keys :: "request list \<Rightarrow> cache \<Rightarrow> cache" where
  "drop_keys ks c = filter (\<lambda>(k, v). k \<notin> set ks) c"

definition evict :: "nat \<Rightarrow> cache \<Rightarrow> cache" where
  "evict m c = drop_keys (take (length c - m) (map fst c)) c"

text \<open>The calls of \<^verbatim>\<open>cache.put\<close> among the recorded effects.\<close>

fun is_put :: "effect \<Rightarrow> bool" where
  "is_put (CachePut n k r) = True"
| "is_put e = False"

definition cache_writes :: "sw_state \<Rightarrow> effect list" where
  "cache_writes st = filter is_put (trace st)"

subsection \<open>Example requests, responses and states\<close>

definition css_request :: request where
  "css_request = \<lparr>req_method = ''GET'', url = ''https://shop.example/assets/app.css'', pathname = ''/assets/app.css''\<rparr>"

definition photo_request :: request where
  "photo_request = \<lparr>req_method = ''GET'', url = ''https://shop.example/files/hero.JPG'', pathname = ''/files/hero.JPG''\<rparr>"

definition page_request :: request where
  "page_request = \<lparr>req_method = ''GET'', url = ''https://shop.example/products/widget'', pathname = ''/products/widget''\<rparr>"

definition checkout_request :: request where
  "checkout_request = \<lparr>req_method = ''GET'', url = ''https://shop.example/checkout/step.js'', pathname = ''/checkout/step.js''\<rparr>"

definition post_request :: request where
  "post_request = \<lparr>req_method = ''POST'', url = ''https://shop.example/contact'', pathname = ''/contact''\<rparr>"

definition ok_response :: response where
  "ok_response = \<lparr>status = 200, statusText = ''OK'', headers = [(''Content-Type'', ''text/css'')], body = ''body{}''\<rparr>"

definition missing_response :: response where
  "missing_response = \<lparr>status = 404, statusText = ''Not Found'', headers = [], body = ''''\<rparr>"

definition vary_response :: response where
  "vary_response = \<lparr>status = 200, statusText = ''OK'', headers = [(''Vary'', ''*'')], body = ''<p>hi</p>''\<rparr>"

text \<open>A store that rejects exactly the responses with \<^verbatim>\<open>Vary: *\<close>.\<close>

definition no_vary_star :: "request \<Rightarrow> response \<Rightarrow> bool" where
  "no_vary_star k r \<longleftrightarrow> map_of (headers r) ''Vary'' \<noteq> Some ''*''"

definition empty_state :: sw_state where
  "empty_state = \<lparr>storage = [], accepts = no_vary_star, put_lands = AfterEviction, trace = []\<rparr>"

definition warm_state :: sw_state where
  "warm_state =
     \<lparr>storage = [(STATIC_CACHE, [(css_request, ok_response)])],
      accepts = no_vary_star, put_lands = AfterEviction, trace = []\<rparr>"

definition numbered_request :: "nat \<Rightarrow> request" where
  "numbered_request i = \<lparr>req_method = ''GET'', url = ''https://shop.example/p/'' @ replicate i (CHR ''x''),
     pathname = ''/p/'' @ replicate i (CHR ''x'')\<rparr>"

definition numbered_cache :: "nat \<Rightarrow> cache" where
  "numbered_cache n = map (\<lambda>i. (numbered_request i, ok_response)) [0..<n]"

definition crowded_state :: sw_state where
  "crowded_state =
     \<lparr>storage = [(DYNAMIC_CACHE, numbered_cache 51)],
      accepts = no_vary_star, put_lands = AfterEviction, trace = []\<rparr>"

definition full_state :: sw_state where
  "full_state =
     \<lparr>storage = [(DYNAMIC_CACHE, numbered_cache 50)],
      accepts = no_vary_star, put_lands = AfterEviction, trace = []\<rparr>"

definition rotated_state :: sw_state where
  "rotated_state =
     \<lparr>storage = [(''shopify-theme-v0-static'', [(css_request, ok_response)]),
                 (''shopify-theme-v1-static'', []),
                 (''shopify-theme-v0-dynamic'', []),
                 (''shopify-theme-v1-dynamic'', [(page_request, ok_response)]),
                 (''fonts'', [])],
      accepts = no_vary_star, put_lands = AfterEviction, trace = []\<rparr>"

section \<open>Properties of the cache storage and of the worker's functions\<close>

lemma storage_log [simp]: "storage (log e st) = storage st"
  by (simp add: log_def)

lemma trace_log [simp]: "trace (log e st) = trace st @ [e]"
  by (simp add: log_def)

lemma map_of_snoc_empty:
  "map_of (stg @ [(n, [])]) m = (case map_of stg m of Some c \<Rightarrow> Some c | None \<Rightarrow> if m = n then Some [] else None)"
  by (induction stg) auto

lemma entries_caches_open [simp]: "entries m (storage (caches_open n st)) = entries m (storage st)"
  by (auto simp: caches_open_def entries_def map_of_snoc_empty split: option.splits if_splits)

lemma trace_caches_open [simp]: "trace (caches_open n st) = trace st @ [CachesOpen n]"
  by (simp add: caches_open_def)

lemma stored_log [simp]: "stored n k (log e st) = stored n k st"
  by (simp add: stored_def)

lemma stored_caches_open [simp]: "stored n k (caches_open m st) = stored n k st"
  by (simp add: stored_def)

lemma stored_Some_present: "stored n k st = Some r \<Longrightarrow> n \<in> set (map fst (storage st))"
  by (auto simp: stored_def entries_def map_of_eq_None_iff split: option.splits dest!: map_of_SomeD intro: rev_image_eqI)

lemma caches_open_present: "n \<in> set (map fst (storage st)) \<Longrightarrow> caches_open n st = log (CachesOpen n) st"
  by (simp add: caches_open_def)

lemma cacheFirst_network_failure:
  assumes "net request = None"
  shows "fst (cacheFirst net request st) =
           (case stored STATIC_CACHE request st of None \<Rightarrow> Undefined | Some r \<Rightarrow> Resp r)"
  using assms
  by (simp add: cacheFirst_def cache_match_def fetch_def js_or_def Let_def split: option.splits)

lemma sublist_join_lines: "l \<in> set ls \<Longrightarrow> sublist l (join_lines ls)"
proof (induction ls rule: join_lines.induct)
  case 1
  then show ?case by simp
next
  case (2 l')
  then show ?case by simp
next
  case (3 l' m ms)
  show ?case
  proof (cases "l = l'")
    case True
    then show ?thesis by (simp del: join_lines.simps(2))
  next
    case False
    with 3 have "sublist l (join_lines (m # ms))" by simp
    then have "sublist l (l' @ [CHR 0x0A] @ join_lines (m # ms))"
      by (meson sublist_append_leftI sublist_order.order.trans)
    then show ?thesis by simp
  qed
qed

lemma retry_in_page:
  \<open>sublist ''<button onclick="location.reload()">Reintentar</button>'' (body offline_page)\<close>
proof -
  have \<open>''            <button onclick="location.reload()">Reintentar</button>'' \<in> set offline_page_lines\<close>
    by (simp add: offline_page_lines_def)
  then have \<open>sublist ''            <button onclick="location.reload()">Reintentar</button>'' (body offline_page)\<close>
    by (simp add: offline_page_def sublist_join_lines)
  moreover have \<open>sublist ''<button onclick="location.reload()">Reintentar</button>''
      (''            '' @ ''<button onclick="location.reload()">Reintentar</button>'')\<close>
    by (rule sublist_append_leftI)
  ultimately show ?thesis
    using sublist_order.order.trans by fastforce
qed

lemma map_of_update_cache:
  "map_of (update_cache n f stg) m = (if m = n then map_option f (map_of stg m) else map_of stg m)"
  by (induction stg) (auto simp: update_cache_def)

lemma entries_update_cache:
  "entries m (update_cache n f stg) =
     (if m = n \<and> n \<in> fst ` set stg then f (entries m stg) else entries m stg)"
proof (cases "map_of stg n")
  case None
  moreover from None have "n \<notin> fst ` set stg"
    by (simp add: map_of_eq_None_iff)
  ultimately show ?thesis
    by (simp add: entries_def map_of_update_cache)
next
  case (Some c)
  then have "n \<in> fst ` set stg"
    using map_of_eq_None_iff[of stg n] by simp
  with Some show ?thesis
    by (simp add: entries_def map_of_update_cache)
qed

lemma names_update_cache [simp]: "map fst (update_cache n f stg) = map fst stg"
  by (induction stg) (auto simp: update_cache_def)

lemma caches_open_names: "n \<in> fst ` set (storage (caches_open n st))"
  by (auto simp: caches_open_def)

lemma map_of_remove_entry [simp]: "map_of (remove_entry k c) k = None"
  by (induction c) (auto simp: remove_entry_def)

lemma accepts_log [simp]: "accepts (log e st) = accepts st"
  by (simp add: log_def)

lemma put_lands_log [simp]: "put_lands (log e st) = put_lands st"
  by (simp add: log_def)

lemma accepts_caches_open [simp]: "accepts (caches_open n st) = accepts st"
  by (simp add: caches_open_def)

lemma put_lands_caches_open [simp]: "put_lands (caches_open n st) = put_lands st"
  by (simp add: caches_open_def)

lemma storage_land_put:
  "storage (land_put n k r st) =
     (if accepts st k r then update_cache n (\<lambda>c. remove_entry k c @ [(k, r)]) (storage st)
      else storage st)"
  by (simp add: land_put_def)

lemma trace_land_put [simp]: "trace (land_put n k r st) = trace st"
  by (simp add: land_put_def)

lemma accepts_land_put [simp]: "accepts (land_put n k r st) = accepts st"
  by (simp add: land_put_def)

lemma names_land_put [simp]: "map fst (storage (land_put n k r st)) = map fst (storage st)"
  by (simp add: storage_land_put)

lemma entries_land_put:
  "n \<in> fst ` set (storage st) \<Longrightarrow>
   entries n (storage (land_put n k r st)) =
     (if accepts st k r then remove_entry k (entries n (storage st)) @ [(k, r)]
      else entries n (storage st))"
  by (simp add: storage_land_put entries_update_cache)

lemma entries_land_put_rejected:
  "\<not> accepts st k r \<Longrightarrow> entries m (storage (land_put n k r st)) = entries m (storage st)"
  by (simp add: storage_land_put)

lemma trace_cache_put [simp]: "trace (cache_put n k r st) = trace st @ [CachePut n k r]"
  by (simp add: cache_put_def)

lemma map_of_put [simp]: "map_of (remove_entry k c @ [(k, r)]) k = Some r"
  by (simp add: map_add_def)

lemma stored_cache_put:
  "n \<in> fst ` set (storage st) \<Longrightarrow> accepts st k r \<Longrightarrow> stored n k (cache_put n k r st) = Some r"
  by (simp add: stored_def cache_put_def entries_land_put map_add_def)

lemma entries_cache_put_rejected:
  "\<not> accepts st k r \<Longrightarrow> entries m (storage (cache_put n k r st)) = entries m (storage st)"
  by (simp add: cache_put_def entries_land_put_rejected)

lemma cacheFirst_network_response:
  assumes "net request = Some r" and "stored STATIC_CACHE request st = None"
  shows "cacheFirst net request st =
           (Resp r,
            if status r = 200
            then cache_put STATIC_CACHE request r
                   (log (NetFetch request) (log (CacheMatch STATIC_CACHE request) (caches_open STATIC_CACHE st)))
            else log (NetFetch request) (log (CacheMatch STATIC_CACHE request) (caches_open STATIC_CACHE st)))"
  using assms by (simp add: cacheFirst_def cache_match_def fetch_def Let_def)

lemma cacheFirst_write_iff_200:
  assumes "net request = Some r" and "stored STATIC_CACHE request st = None"
  shows "fst (cacheFirst net request st) = Resp r"
    and "cache_writes (snd (cacheFirst net request st)) =
           cache_writes st @ (if status r = 200 then [CachePut STATIC_CACHE request r] else [])"
    and "status r = 200 \<Longrightarrow> accepts st request r \<Longrightarrow>
           stored STATIC_CACHE request (snd (cacheFirst net request st)) = Some r"
    and "\<not> (status r = 200 \<and> accepts st request r) \<Longrightarrow>
           entries n (storage (snd (cacheFirst net request st))) = entries n (storage st)"
  using assms
  by (auto simp: cacheFirst_network_response cache_writes_def stored_cache_put caches_open_names
      entries_cache_put_rejected)

lemma update_cache_comp:
  "update_cache n f (update_cache n g stg) = update_cache n (\<lambda>c. f (g c)) stg"
  by (induction stg) (auto simp: update_cache_def)

lemma update_cache_ident [simp]: "update_cache n (\<lambda>c. c) stg = stg"
  by (induction stg) (auto simp: update_cache_def)

lemma storage_cache_delete:
  "storage (cache_delete n k st) = update_cache n (remove_entry k) (storage st)"
  by (simp add: cache_delete_def)

lemma trace_cache_delete [simp]: "trace (cache_delete n k st) = trace st @ [CacheDelete n k]"
  by (simp add: cache_delete_def)

lemma accepts_cache_delete [simp]: "accepts (cache_delete n k st) = accepts st"
  by (simp add: cache_delete_def)

lemma storage_fold_cache_delete:
  "storage (fold (cache_delete n) ks st) = update_cache n (fold remove_entry ks) (storage st)"
proof (induction ks arbitrary: st)
  case Nil
  show ?case by simp
next
  case (Cons k ks)
  show ?case
    by (simp add: Cons storage_cache_delete update_cache_comp)
qed

lemma trace_fold_cache_delete:
  "trace (fold (cache_delete n) ks st) = trace st @ map (CacheDelete n) ks"
  by (induction ks arbitrary: st) simp_all

lemma accepts_fold_cache_delete [simp]: "accepts (fold (cache_delete n) ks st) = accepts st"
  by (induction ks arbitrary: st) simp_all

lemma fold_remove_entry: "fold remove_entry ks c = drop_keys ks c"
proof (induction ks arbitrary: c)
  case Nil
  show ?case by (simp add: drop_keys_def)
next
  case (Cons k ks)
  have "filter (\<lambda>(k', v). k' \<notin> set ks) (remove_entry k c) = filter (\<lambda>(k', v). k' \<notin> set (k # ks)) c"
    by (auto simp: remove_entry_def intro: filter_cong)
  then show ?case by (simp add: Cons drop_keys_def)
qed

lemma entries_fold_cache_delete:
  "n \<in> fst ` set (storage st) \<Longrightarrow>
   entries n (storage (fold (cache_delete n) ks st)) = drop_keys ks (entries n (storage st))"
  by (simp add: storage_fold_cache_delete entries_update_cache fold_remove_entry)

lemma drop_keys_Nil [simp]: "drop_keys [] c = c"
  by (simp add: drop_keys_def)

lemma entries_limitCacheSize:
  "entries n (storage (limitCacheSize n m st)) = evict m (entries n (storage st))"
proof -
  have "n \<in> fst ` set (storage (log (CacheKeys n) (caches_open n st)))"
    using caches_open_names[of n st] by simp
  then show ?thesis
    by (simp add: limitCacheSize_def cache_keys_def Let_def entries_fold_cache_delete evict_def)
qed

lemma limitCacheSize_with_nothing: "limitCacheSize_with (\<lambda>s. s) n m st = limitCacheSize n m st"
  by (simp add: limitCacheSize_with_def limitCacheSize_def Let_def split_beta)

lemma names_limitCacheSize:
  "map fst (storage (limitCacheSize n m st)) = map fst (storage (caches_open n st))"
  by (simp add: limitCacheSize_def cache_keys_def Let_def storage_fold_cache_delete)

lemma accepts_limitCacheSize [simp]: "accepts (limitCacheSize n m st) = accepts st"
  by (simp add: limitCacheSize_def cache_keys_def Let_def)

lemma entries_limitCacheSize_with_put:
  "entries n (storage (limitCacheSize_with (land_put n k r) n m st)) =
     drop_keys (take (length (entries n (storage st)) - m) (map fst (entries n (storage st))))
       (if accepts st k r then remove_entry k (entries n (storage st)) @ [(k, r)]
        else entries n (storage st))"
proof -
  let ?st2 = "log (CacheKeys n) (caches_open n st)"
  have present: "n \<in> fst ` set (storage ?st2)"
    using caches_open_names[of n st] by simp
  then have present': "n \<in> fst ` set (storage (land_put n k r ?st2))"
    using names_land_put[of n k r ?st2] by (metis set_map)
  have landed: "entries n (storage (land_put n k r ?st2)) =
      (if accepts st k r then remove_entry k (entries n (storage st)) @ [(k, r)]
       else entries n (storage st))"
    using present by (simp add: entries_land_put)
  show ?thesis
  proof (cases "length (entries n (storage st)) > m")
    case True
    then show ?thesis
      using present' landed
      by (simp add: limitCacheSize_with_def cache_keys_def Let_def entries_fold_cache_delete)
  next
    case False
    then show ?thesis
      using landed by (simp add: limitCacheSize_with_def cache_keys_def Let_def)
  qed
qed

lemma taken_keys_removed: "drop_keys (take i (map fst c)) (take i c) = []"
  by (force simp: drop_keys_def filter_empty_conv take_map)

lemma evict_drop: "evict m c = drop_keys (take (length c - m) (map fst c)) (drop (length c - m) c)"
proof -
  let ?ks = "take (length c - m) (map fst c)"
  have "drop_keys ?ks c = drop_keys ?ks (take (length c - m) c) @ drop_keys ?ks (drop (length c - m) c)"
    unfolding drop_keys_def by (metis append_take_drop_id filter_append)
  then show ?thesis
    by (simp add: evict_def taken_keys_removed)
qed

lemma length_evict: "length (evict m c) \<le> m"
proof -
  have "length (evict m c) \<le> length (drop (length c - m) c)"
    unfolding evict_drop drop_keys_def by (rule length_filter_le)
  also have "\<dots> \<le> m" by simp
  finally show ?thesis .
qed

lemma evict_distinct:
  assumes "distinct (map fst c)"
  shows "evict m c = drop (length c - m) c"
proof -
  let ?i = "length c - m"
  have "distinct (take ?i (map fst c) @ drop ?i (map fst c))"
    using assms by simp
  then have "set (take ?i (map fst c)) \<inter> set (drop ?i (map fst c)) = {}"
    by (simp only: distinct_append)
  then have "\<forall>e \<in> set (drop ?i c). (\<lambda>(k, v). k \<notin> set (take ?i (map fst c))) e"
    by (force simp: drop_map)
  then show ?thesis
    by (simp add: evict_drop drop_keys_def filter_id_conv)
qed

lemma limitCacheSize_keeps_newest:
  assumes "distinct (map fst (entries n (storage st)))"
  shows "entries n (storage (limitCacheSize n m st)) =
           drop (length (entries n (storage st)) - m) (entries n (storage st))"
  using assms by (simp add: entries_limitCacheSize evict_distinct)

lemma networkFirst_network_response:
  assumes "net request = Some r"
  shows "networkFirst net request st =
           (Resp r,
            if status r = 200
            then (let st3 = log (CachePut DYNAMIC_CACHE request r)
                              (log (NetFetch request) (caches_open DYNAMIC_CACHE st))
                  in case put_lands st of
                       BeforeEviction \<Rightarrow>
                         limitCacheSize DYNAMIC_CACHE MAX_DYNAMIC_CACHE_SIZE
                           (land_put DYNAMIC_CACHE request r st3)
                     | DuringEviction \<Rightarrow>
                         limitCacheSize_with (land_put DYNAMIC_CACHE request r)
                           DYNAMIC_CACHE MAX_DYNAMIC_CACHE_SIZE st3
                     | AfterEviction \<Rightarrow>
                         land_put DYNAMIC_CACHE request r
                           (limitCacheSize DYNAMIC_CACHE MAX_DYNAMIC_CACHE_SIZE st3))
            else log (NetFetch request) (caches_open DYNAMIC_CACHE st))"
  using assms by (simp add: networkFirst_def fetch_def Let_def)

lemma keys_remove_entry: "k \<notin> fst ` set (remove_entry k c)"
  by (auto simp: remove_entry_def)

lemma remove_entry_absent: "k \<notin> fst ` set c \<Longrightarrow> remove_entry k c = c"
  by (force simp: remove_entry_def filter_id_conv)

text \<open>
  What a dynamic page answered with status 200 leaves in the dynamic generation, for each
  of the three moments at which the write can land.
\<close>

lemma entries_networkFirst_200:
  assumes "net request = Some r" and "status r = 200"
  shows "entries DYNAMIC_CACHE (storage (snd (networkFirst net request st))) =
           (let c = entries DYNAMIC_CACHE (storage st);
                put = (\<lambda>c. if accepts st request r then remove_entry request c @ [(request, r)] else c)
            in case put_lands st of
                 BeforeEviction \<Rightarrow> evict MAX_DYNAMIC_CACHE_SIZE (put c)
               | DuringEviction \<Rightarrow>
                   drop_keys (take (length c - MAX_DYNAMIC_CACHE_SIZE) (map fst c)) (put c)
               | AfterEviction \<Rightarrow> put (evict MAX_DYNAMIC_CACHE_SIZE c))"
proof -
  let ?st3 = "log (CachePut DYNAMIC_CACHE request r)
                (log (NetFetch request) (caches_open DYNAMIC_CACHE st))"
  have present: "DYNAMIC_CACHE \<in> fst ` set (storage ?st3)"
    using caches_open_names[of DYNAMIC_CACHE st] by simp
  have "DYNAMIC_CACHE \<in> fst ` set (storage (caches_open DYNAMIC_CACHE ?st3))"
    by (rule caches_open_names)
  then have present': "DYNAMIC_CACHE \<in> fst ` set (storage (limitCacheSize DYNAMIC_CACHE MAX_DYNAMIC_CACHE_SIZE ?st3))"
    using names_limitCacheSize[of DYNAMIC_CACHE MAX_DYNAMIC_CACHE_SIZE ?st3] by (metis set_map)
  show ?thesis
  proof (cases "put_lands st")
    case BeforeEviction
    then show ?thesis
      using assms present
      by (simp add: networkFirst_network_response Let_def entries_limitCacheSize entries_land_put)
  next
    case DuringEviction
    then show ?thesis
      using assms
      by (simp add: networkFirst_network_response Let_def entries_limitCacheSize_with_put)
  next
    case AfterEviction
    then show ?thesis
      using assms present'
      by (simp add: networkFirst_network_response Let_def entries_limitCacheSize entries_land_put)
  qed
qed

lemma map_of_filter_keys:
  "map_of (filter (\<lambda>(k', v). k' \<notin> S) c) k = (if k \<in> S then None else map_of c k)"
  by (induction c) auto

lemma map_of_evict_newest:
  assumes "k \<notin> fst ` set c" and "0 < m"
  shows "map_of (evict m (c @ [(k, r)])) k = Some r"
proof -
  have "take (length (c @ [(k, r)]) - m) (map fst (c @ [(k, r)])) = take (Suc (length c) - m) (map fst c)"
    using assms(2) by simp
  then have "k \<notin> set (take (length (c @ [(k, r)]) - m) (map fst (c @ [(k, r)])))"
    using assms(1) by (auto dest: in_set_takeD)
  moreover have "map_of c k = None"
    using assms(1) by (simp add: map_of_eq_None_iff)
  then have "map_of (c @ [(k, r)]) k = Some r"
    by (simp add: map_add_def)
  ultimately show ?thesis
    by (simp only: evict_def drop_keys_def map_of_filter_keys if_False)
qed

lemma trace_limitCacheSize:
  "filter is_put (trace (limitCacheSize n m st)) = filter is_put (trace st)"
  by (simp add: limitCacheSize_def cache_keys_def Let_def trace_fold_cache_delete filter_empty_conv
      comp_def)

lemma trace_limitCacheSize_with_put:
  "filter is_put (trace (limitCacheSize_with (land_put n' k r) n m st)) = filter is_put (trace st)"
  by (simp add: limitCacheSize_with_def cache_keys_def Let_def trace_fold_cache_delete filter_empty_conv
      comp_def)

lemma networkFirst_write_iff_200:
  assumes "net request = Some r"
  shows "fst (networkFirst net request st) = Resp r"
    and "cache_writes (snd (networkFirst net request st)) =
           cache_writes st @ (if status r = 200 then [CachePut DYNAMIC_CACHE request r] else [])"
    and "status r \<noteq> 200 \<Longrightarrow> entries n (storage (snd (networkFirst net request st))) = entries n (storage st)"
proof -
  show "fst (networkFirst net request st) = Resp r"
    using assms by (simp add: networkFirst_network_response)
  show "cache_writes (snd (networkFirst net request st)) =
           cache_writes st @ (if status r = 200 then [CachePut DYNAMIC_CACHE request r] else [])"
    using assms
    by (cases "put_lands st")
      (simp_all add: networkFirst_network_response cache_writes_def trace_limitCacheSize
        trace_limitCacheSize_with_put Let_def)
  show "entries n (storage (snd (networkFirst net request st))) = entries n (storage st)" if "status r \<noteq> 200"
    using assms that by (simp add: networkFirst_network_response)
qed

lemma networkFirst_stores_200:
  assumes "net request = Some r" and "status r = 200" and "accepts st request r"
    and "put_lands st = DuringEviction \<longrightarrow>
           request \<notin> set (take (length (entries DYNAMIC_CACHE (storage st)) - 50)
                            (map fst (entries DYNAMIC_CACHE (storage st))))"
  shows "stored DYNAMIC_CACHE request (snd (networkFirst net request st)) = Some r"
proof (cases "put_lands st")
  case BeforeEviction
  then show ?thesis
    using assms(1-3) keys_remove_entry[of request "entries DYNAMIC_CACHE (storage st)"]
    by (simp add: stored_def entries_networkFirst_200 map_of_evict_newest MAX_DYNAMIC_CACHE_SIZE_def)
next
  case DuringEviction
  then show ?thesis
    using assms
    by (simp add: stored_def entries_networkFirst_200 MAX_DYNAMIC_CACHE_SIZE_def drop_keys_def
        map_of_filter_keys Let_def map_add_def)
next
  case AfterEviction
  then show ?thesis
    using assms(1-3) by (simp add: stored_def entries_networkFirst_200 map_add_def)
qed

lemma storage_caches_delete:
  "storage (caches_delete name st) = filter (\<lambda>e. fst e \<noteq> name) (storage st)"
  by (simp add: caches_delete_def split_def)

lemma storage_fold_caches_delete:
  "storage (fold caches_delete names st) = filter (\<lambda>e. fst e \<notin> set names) (storage st)"
proof (induction names arbitrary: st)
  case Nil
  show ?case by simp
next
  case (Cons a names)
  have "filter (\<lambda>e. fst e \<notin> set names) (filter (\<lambda>e. fst e \<noteq> a) (storage st)) =
        filter (\<lambda>e. fst e \<notin> set (a # names)) (storage st)"
    by (induction "storage st") auto
  then show ?case
    by (simp only: fold_simps Cons storage_caches_delete)
qed

lemma trace_fold_caches_delete:
  "trace (fold caches_delete names st) = trace st @ map CachesDelete names"
  by (induction names arbitrary: st) (simp_all add: caches_delete_def)

lemma storage_activate:
  "storage (activate_listener st) = filter (\<lambda>e. \<not> is_stale (fst e)) (storage st)"
proof -
  have "filter (\<lambda>e. fst e \<notin> set (filter is_stale (map fst (storage st)))) (storage st) =
        filter (\<lambda>e. \<not> is_stale (fst e)) (storage st)"
    by (rule filter_cong[OF refl]) auto
  then show ?thesis
    by (simp add: activate_listener_def caches_keys_def storage_fold_caches_delete)
qed

lemma trace_activate:
  "trace (activate_listener st) =
     trace st @ [CachesKeys] @ map CachesDelete (filter is_stale (map fst (storage st))) @ [ClientsClaim]"
  by (simp add: activate_listener_def caches_keys_def trace_fold_caches_delete)

lemma suffix_iff_drop: "suffix t s \<longleftrightarrow> (\<exists>i \<le> length s. drop i s = t)"
proof
  assume "suffix t s"
  then obtain p where "s = p @ t" by (auto simp: suffix_def)
  then have "length p \<le> length s \<and> drop (length p) s = t" by simp
  then show "\<exists>i \<le> length s. drop i s = t" by blast
next
  assume "\<exists>i \<le> length s. drop i s = t"
  then show "suffix t s" using suffix_drop by blast
qed

lemma regex_match_iff: "regex_match s r \<longleftrightarrow> (\<exists>i \<le> length s. rests r (drop i s) \<noteq> [])"
  by (auto simp: regex_match_def list_ex_iff less_Suc_eq_le simp del: upt_Suc)

lemma rests_Seq_Lit:
  "rests (Seq (Lit w) r) s \<noteq> [] \<longleftrightarrow> (\<exists>u. s = w @ u \<and> rests r u \<noteq> [])"
  by (auto simp: prefix_def)

lemma rests_Seq_End: "rests (Seq a EndOfInput) u \<noteq> [] \<longleftrightarrow> [] \<in> set (rests a u)"
  by (induction "rests a u" arbitrary: u) (auto split: if_splits)

lemma nil_rests_Lit: "[] \<in> set (rests (Lit w) u) \<longleftrightarrow> u = w"
  by (auto simp: prefix_def)

lemma nil_rests_Alt:
  "[] \<in> set (rests (Alt a b) u) \<longleftrightarrow> [] \<in> set (rests a u) \<or> [] \<in> set (rests b u)"
  by simp

lemma nil_rests_Lit_Opt:
  "[] \<in> set (rests (Seq (Lit w) (Opt (Lit v))) u) \<longleftrightarrow> u = w @ v \<or> u = w"
  by (auto simp: prefix_def)

lemma six_alternatives:
  "(\<exists>u. t = w @ u \<and> (u = a \<or> u = b \<or> (u = c2 \<or> u = c) \<or> u = d \<or> u = e)) \<longleftrightarrow>
     (\<exists>x \<in> {a, b, c, c2, d, e}. t = w @ x)"
  by blast

lemma seven_alternatives:
  "(\<exists>u. t = w @ u \<and> (u = a \<or> u = b \<or> u = c \<or> u = d \<or> u = e \<or> u = f \<or> u = g)) \<longleftrightarrow>
     (\<exists>x \<in> {a, b, c, d, e, f, g}. t = w @ x)"
  by blast

lemma rests_static_asset_regex:
  "rests static_asset_regex t \<noteq> [] \<longleftrightarrow>
     (\<exists>e \<in> {''css'', ''js'', ''woff'', ''woff2'', ''ttf'', ''eot''}. t = ''.'' @ e)"
proof -
  have woff2: "''woff'' @ ''2'' = ''woff2''" by simp
  show ?thesis
    unfolding static_asset_regex_def rests_Seq_Lit rests_Seq_End nil_rests_Alt nil_rests_Lit_Opt
      nil_rests_Lit woff2
    by (rule six_alternatives)
qed

lemma rests_image_regex:
  "rests image_regex t \<noteq> [] \<longleftrightarrow>
     (\<exists>e \<in> {''jpg'', ''jpeg'', ''png'', ''gif'', ''webp'', ''svg'', ''avif''}. t = ''.'' @ e)"
  unfolding image_regex_def rests_Seq_Lit rests_Seq_End nil_rests_Alt nil_rests_Lit
  by (rule seven_alternatives)

lemma regex_match_suffixes:
  assumes "\<And>t. rests r t \<noteq> [] \<longleftrightarrow> (\<exists>e \<in> E. t = w @ e)"
  shows "regex_match s r \<longleftrightarrow> (\<exists>e \<in> E. suffix (w @ e) s)"
  unfolding regex_match_iff assms suffix_iff_drop by blast

lemma isStaticAsset_iff:
  "isStaticAsset r \<longleftrightarrow>
     (\<exists>e \<in> {''css'', ''js'', ''woff'', ''woff2'', ''ttf'', ''eot''}. suffix (''.'' @ e) (pathname r))"
  unfolding isStaticAsset_def by (rule regex_match_suffixes) (rule rests_static_asset_regex)

lemma isImage_iff:
  "isImage r \<longleftrightarrow>
     (\<exists>e \<in> {''jpg'', ''jpeg'', ''png'', ''gif'', ''webp'', ''svg'', ''avif''}. suffix (''.'' @ e) (pathname r))"
  unfolding isImage_def by (rule regex_match_suffixes) (rule rests_image_regex)

lemma distinct_numbered_cache: "distinct (map fst (numbered_cache n))"
proof -
  have "inj numbered_request"
    by (auto simp: inj_def numbered_request_def dest: arg_cong[where f = length])
  then have "inj_on numbered_request (set [0..<n])"
    using inj_on_subset by blast
  then show ?thesis
    by (simp add: numbered_cache_def comp_def distinct_map del: upt_Suc)
qed

lemma page_request_not_numbered: "page_request \<notin> fst ` set (numbered_cache n)"
  by (auto simp: numbered_cache_def numbered_request_def page_request_def simp del: upt_Suc)

section \<open>The claims\<close>

text \<open>
  C1 (cache-first on network failure). The claim reads: when the fetch throws, the
  strategy returns the entry stored in the static generation if there is one, and
  otherwise a synthesized response with status 503. The worker returns
  \<^verbatim>\<open>cache.match(request) || new Response('Offline', { status: 503 })\<close> without awaiting
  the lookup: the left operand is a promise, hence truthy, so the 503 response is never
  chosen, and the function settles to what the lookup yields. For a stylesheet request
  on an empty static generation with the network down that is \<^verbatim>\<open>undefined\<close>, not a
  response with status 503.
\<close>

theorem cacheFirst_offline_miss_undefined:
  "fst (cacheFirst (\<lambda>k. None) css_request empty_state) = Undefined"
  by (simp add: cacheFirst_network_failure stored_def entries_def empty_state_def)

text \<open>
  C2 (eviction bound). The claim reads: after a successful write to the dynamic
  generation and the eviction that follows it, the generation never holds more than 50
  entries. \<open>networkFirst\<close> calls \<^verbatim>\<open>cache.put\<close> and then \<^verbatim>\<open>limitCacheSize\<close> and awaits
  neither, so the eviction can read the keys before the write has landed. With 50
  entries stored and a new page answered with status 200, the eviction then finds
  nothing to delete and the write makes the generation 51 entries long, whether it lands
  after the eviction or between its reading of the keys and its deletions. From 51
  entries the eviction deletes the oldest one and the write brings the count back to 51.
\<close>

theorem networkFirst_exceeds_bound:
  "length (entries DYNAMIC_CACHE (storage full_state)) = 50 \<and>
   length (entries DYNAMIC_CACHE
     (storage (snd (networkFirst (\<lambda>k. Some ok_response) page_request full_state)))) = 51 \<and>
   length (entries DYNAMIC_CACHE
     (storage (snd (networkFirst (\<lambda>k. Some ok_response) page_request
        (full_state\<lparr>put_lands := DuringEviction\<rparr>))))) = 51 \<and>
   length (entries DYNAMIC_CACHE
     (storage (snd (networkFirst (\<lambda>k. Some ok_response) page_request crowded_state)))) = 51"
proof -
  have ok: "status ok_response = 200"
    by (simp add: ok_response_def)
  have browser: "accepts full_state page_request ok_response" "put_lands full_state = AfterEviction"
    "accepts crowded_state page_request ok_response" "put_lands crowded_state = AfterEviction"
    by (simp_all add: full_state_def crowded_state_def ok_response_def no_vary_star_def)
  have full: "entries DYNAMIC_CACHE (storage full_state) = numbered_cache 50"
    "entries DYNAMIC_CACHE (storage (full_state\<lparr>put_lands := DuringEviction\<rparr>)) = numbered_cache 50"
    by (simp_all add: full_state_def entries_def)
  have crowded: "entries DYNAMIC_CACHE (storage crowded_state) = numbered_cache 51"
    by (simp add: crowded_state_def entries_def)
  have len: "length (numbered_cache n) = n" for n
    by (simp add: numbered_cache_def del: upt_Suc)
  have fresh: "remove_entry page_request c = c" if "set c \<subseteq> set (numbered_cache n)" for c n
    using that page_request_not_numbered[of n] by (intro remove_entry_absent) blast
  have within: "evict 50 (numbered_cache 50) = numbered_cache 50"
    by (simp add: evict_def len)
  have beyond: "evict 50 (numbered_cache 51) = drop 1 (numbered_cache 51)"
    by (simp add: evict_distinct distinct_numbered_cache len)
  have "length (entries DYNAMIC_CACHE
     (storage (snd (networkFirst (\<lambda>k. Some ok_response) page_request full_state)))) = 51"
    using ok browser fresh[of "numbered_cache 50" 50]
    by (simp add: entries_networkFirst_200 full MAX_DYNAMIC_CACHE_SIZE_def within len)
  moreover have "length (entries DYNAMIC_CACHE
     (storage (snd (networkFirst (\<lambda>k. Some ok_response) page_request
        (full_state\<lparr>put_lands := DuringEviction\<rparr>))))) = 51"
    using ok browser fresh[of "numbered_cache 50" 50]
    by (simp add: entries_networkFirst_200 full MAX_DYNAMIC_CACHE_SIZE_def len)
  moreover have "length (entries DYNAMIC_CACHE
     (storage (snd (networkFirst (\<lambda>k. Some ok_response) page_request crowded_state)))) = 51"
    using ok browser fresh[of "drop 1 (numbered_cache 51)" 51]
    by (simp add: entries_networkFirst_200 crowded MAX_DYNAMIC_CACHE_SIZE_def
        beyond len set_drop_subset)
  ultimately show ?thesis
    by (simp add: full len)
qed

text \<open>
  C3 (offline page). When the fetch throws and the dynamic generation holds no entry for
  the request, the network-first strategy answers with the offline page: status 503,
  status text "Service Unavailable", a Content-Type header of text/html, and a body that
  contains the retry button.
\<close>

theorem networkFirst_offline_page:
  assumes "net request = None" and "stored DYNAMIC_CACHE request st = None"
  shows \<open>fst (networkFirst net request st) = Resp offline_page \<and>
         status offline_page = 503 \<and>
         statusText offline_page = ''Service Unavailable'' \<and>
         map_of (headers offline_page) ''Content-Type'' = Some ''text/html'' \<and>
         sublist ''<button onclick="location.reload()">Reintentar</button>'' (body offline_page)\<close>
proof -
  have "fst (networkFirst net request st) = Resp offline_page"
    using assms by (simp add: networkFirst_def cache_match_def fetch_def Let_def)
  moreover have "status offline_page = 503" "statusText offline_page = ''Service Unavailable''"
    "map_of (headers offline_page) ''Content-Type'' = Some ''text/html''"
    by (simp_all add: offline_page_def)
  ultimately show ?thesis using retry_in_page by simp
qed

theorem networkFirst_offline_page_witness:
  "fst (networkFirst (\<lambda>k. None) page_request warm_state) = Resp offline_page \<and> status offline_page = 503"
proof -
  have "stored DYNAMIC_CACHE page_request warm_state = None"
    by (simp add: stored_def entries_def warm_state_def STATIC_CACHE_def DYNAMIC_CACHE_def)
  from networkFirst_offline_page[OF _ this, of "\<lambda>k. None"] show ?thesis
    by simp
qed

text \<open>
  C4 (bypass). For a request whose method is not GET, and for a request whose path
  contains \<^verbatim>\<open>/admin\<close>, \<^verbatim>\<open>/checkout\<close>, \<^verbatim>\<open>/cart/add\<close> or \<^verbatim>\<open>/cart/update\<close>, the fetch
  listener does not respond: the request is left to the network, and the state (the
  storage and the trace of cache and network calls) is the one before.
\<close>

theorem fetch_listener_bypass:
  assumes "req_method request \<noteq> ''GET'' \<or>
           sublist ''/admin'' (pathname request) \<or> sublist ''/checkout'' (pathname request) \<or>
           sublist ''/cart/add'' (pathname request) \<or> sublist ''/cart/update'' (pathname request)"
  shows "fetch_listener net request st = (PassThrough, st)"
  using assms by (auto simp: fetch_listener_def excluded_def)

theorem fetch_listener_bypass_witness:
  "fetch_listener (\<lambda>k. Some ok_response) post_request warm_state = (PassThrough, warm_state) \<and>
   fetch_listener (\<lambda>k. Some ok_response) checkout_request warm_state = (PassThrough, warm_state)"
proof -
  have "req_method post_request \<noteq> ''GET''"
    by (simp add: post_request_def)
  moreover have "sublist ''/checkout'' (pathname checkout_request)"
    by (simp add: checkout_request_def)
  ultimately show ?thesis
    using fetch_listener_bypass[of post_request] fetch_listener_bypass[of checkout_request]
    by simp
qed

text \<open>
  C5 (cache hit). When the static generation holds an entry for the request, the
  cache-first strategy returns that entry; the storage is unchanged, and the only calls
  made are the opening of the static generation and the lookup: no fetch, no write.
\<close>

theorem cacheFirst_hit:
  assumes "stored STATIC_CACHE request st = Some r"
  shows "cacheFirst net request st =
           (Resp r, st\<lparr>trace := trace st @ [CachesOpen STATIC_CACHE, CacheMatch STATIC_CACHE request]\<rparr>)"
  using assms stored_Some_present[OF assms]
  by (simp add: cacheFirst_def cache_match_def caches_open_present Let_def)

theorem cacheFirst_hit_witness:
  "cacheFirst (\<lambda>k. None) css_request warm_state =
     (Resp ok_response,
      warm_state\<lparr>trace := [CachesOpen STATIC_CACHE, CacheMatch STATIC_CACHE css_request]\<rparr>)"
proof -
  have "stored STATIC_CACHE css_request warm_state = Some ok_response"
    by (simp add: stored_def entries_def warm_state_def)
  from cacheFirst_hit[OF this] show ?thesis
    by (simp add: warm_state_def)
qed

text \<open>
  C6 (only status 200 is stored). Let the network answer the request with \<open>r\<close>. The
  cache-first strategy (on a miss, the only case in which it fetches) and the
  network-first strategy both return \<open>r\<close> itself, and they call \<^verbatim>\<open>cache.put\<close>, once,
  with \<open>r\<close> under the request in their own generation, if and only if the status of
  \<open>r\<close> is 200. For any other status the entries of every generation are the ones
  before; in \<open>cacheFirst\<close> also when the store rejects the write. When the status is 200
  and the store accepts the write, the generation afterwards holds \<open>r\<close> for the request;
  in \<open>networkFirst\<close>, whose eviction runs beside the write, this needs that a write
  landing between the eviction's reading of the keys and its deletions is not of a
  request among the keys being deleted.
\<close>

theorem cache_write_iff_status_200:
  assumes "net request = Some r"
  shows "(stored STATIC_CACHE request st = None \<longrightarrow>
            (let (v, st') = cacheFirst net request st
             in v = Resp r \<and>
                cache_writes st' =
                  cache_writes st @ (if status r = 200 then [CachePut STATIC_CACHE request r] else []) \<and>
                (if status r = 200 \<and> accepts st request r
                 then stored STATIC_CACHE request st' = Some r
                 else \<forall>n. entries n (storage st') = entries n (storage st)))) \<and>
         (let (v, st') = networkFirst net request st;
              c = entries DYNAMIC_CACHE (storage st)
          in v = Resp r \<and>
             cache_writes st' =
               cache_writes st @ (if status r = 200 then [CachePut DYNAMIC_CACHE request r] else []) \<and>
             (status r \<noteq> 200 \<longrightarrow> (\<forall>n. entries n (storage st') = entries n (storage st))) \<and>
             (status r = 200 \<and> accepts st request r \<and>
              (put_lands st = DuringEviction \<longrightarrow>
                 request \<notin> set (take (length c - 50) (map fst c))) \<longrightarrow>
                stored DYNAMIC_CACHE request st' = Some r))"
  using assms
  by (simp add: split_beta Let_def cacheFirst_write_iff_200 networkFirst_write_iff_200
      networkFirst_stores_200)

theorem cache_write_iff_status_200_witness:
  "stored DYNAMIC_CACHE page_request (snd (networkFirst (\<lambda>k. Some ok_response) page_request empty_state)) =
     Some ok_response \<and>
   cache_writes (snd (networkFirst (\<lambda>k. Some missing_response) page_request empty_state)) = [] \<and>
   stored STATIC_CACHE css_request (snd (cacheFirst (\<lambda>k. Some ok_response) css_request empty_state)) =
     Some ok_response \<and>
   cache_writes (snd (cacheFirst (\<lambda>k. Some missing_response) css_request empty_state)) = [] \<and>
   cache_writes (snd (cacheFirst (\<lambda>k. Some vary_response) css_request empty_state)) =
     [CachePut STATIC_CACHE css_request vary_response] \<and>
   entries STATIC_CACHE (storage (snd (cacheFirst (\<lambda>k. Some vary_response) css_request empty_state))) = []"
proof -
  have miss: "stored STATIC_CACHE css_request empty_state = None"
    by (simp add: stored_def entries_def empty_state_def)
  have none: "cache_writes empty_state = []" "entries STATIC_CACHE (storage empty_state) = []"
    by (simp_all add: cache_writes_def empty_state_def entries_def)
  have ok: "status ok_response = 200" and missing: "status missing_response \<noteq> 200"
    and vary: "status vary_response = 200"
    by (simp_all add: ok_response_def missing_response_def vary_response_def)
  have acc: "accepts empty_state page_request ok_response" "accepts empty_state css_request ok_response"
    "\<not> accepts empty_state css_request vary_response" "put_lands empty_state = AfterEviction"
    by (simp_all add: empty_state_def no_vary_star_def ok_response_def vary_response_def)
  show ?thesis
    using cache_write_iff_status_200[of "\<lambda>k. Some ok_response" page_request ok_response empty_state]
      cache_write_iff_status_200[of "\<lambda>k. Some missing_response" page_request missing_response empty_state]
      cache_write_iff_status_200[of "\<lambda>k. Some ok_response" css_request ok_response empty_state]
      cache_write_iff_status_200[of "\<lambda>k. Some missing_response" css_request missing_response empty_state]
      cache_write_iff_status_200[of "\<lambda>k. Some vary_response" css_request vary_response empty_state]
      miss none ok missing vary acc
    by (simp add: split_beta Let_def)
qed

text \<open>
  C7 (classification and dispatch). For a GET request whose path contains none of the
  excluded substrings: when the path ends with a dot followed by one of css, js, woff,
  woff2, ttf, eot the listener responds with the cache-first strategy; otherwise, when
  it ends with a dot followed by one of jpg, jpeg, png, gif, webp, svg, avif, again with
  the cache-first strategy; otherwise with the network-first strategy. Characters are
  compared as they are, so \<^verbatim>\<open>.JPG\<close> is no image extension.
\<close>

theorem fetch_listener_dispatch:
  assumes "req_method request = ''GET''"
    and "\<not> (sublist ''/admin'' (pathname request) \<or> sublist ''/checkout'' (pathname request) \<or>
            sublist ''/cart/add'' (pathname request) \<or> sublist ''/cart/update'' (pathname request))"
  shows "fetch_listener net request st =
           (if \<exists>e \<in> {''css'', ''js'', ''woff'', ''woff2'', ''ttf'', ''eot''}.
                  suffix (''.'' @ e) (pathname request)
            then respondWith (cacheFirst net request st)
            else if \<exists>e \<in> {''jpg'', ''jpeg'', ''png'', ''gif'', ''webp'', ''svg'', ''avif''}.
                  suffix (''.'' @ e) (pathname request)
            then respondWith (cacheFirst net request st)
            else respondWith (networkFirst net request st))"
proof -
  have "\<not> excluded request"
    using assms(2) by (simp add: excluded_def)
  then show ?thesis
    using assms(1)
    by (simp only: fetch_listener_def isStaticAsset_iff isImage_iff simp_thms if_True if_False)
qed

theorem fetch_listener_dispatch_witness:
  "fetch_listener (\<lambda>k. None) css_request warm_state =
     respondWith (cacheFirst (\<lambda>k. None) css_request warm_state) \<and>
   fetch_listener (\<lambda>k. None) photo_request warm_state =
     respondWith (networkFirst (\<lambda>k. None) photo_request warm_state)"
proof -
  have "req_method css_request = ''GET''" "req_method photo_request = ''GET''"
    by (simp_all add: css_request_def photo_request_def)
  moreover have "\<not> (sublist ''/admin'' (pathname css_request) \<or> sublist ''/checkout'' (pathname css_request) \<or>
            sublist ''/cart/add'' (pathname css_request) \<or> sublist ''/cart/update'' (pathname css_request))"
    unfolding css_request_def by code_simp
  moreover have "\<not> (sublist ''/admin'' (pathname photo_request) \<or> sublist ''/checkout'' (pathname photo_request) \<or>
            sublist ''/cart/add'' (pathname photo_request) \<or> sublist ''/cart/update'' (pathname photo_request))"
    unfolding photo_request_def by code_simp
  ultimately show ?thesis
    using fetch_listener_dispatch[of css_request "\<lambda>k. None" warm_state]
      fetch_listener_dispatch[of photo_request "\<lambda>k. None" warm_state]
    by (simp add: css_request_def photo_request_def suffix_to_prefix)
qed

text \<open>
  C8 (rotation on activate). Activation keeps, in order and with their entries, exactly
  the generations whose name does not both start with \<^verbatim>\<open>shopify-theme-\<close> and differ
  from the two current names; it calls \<^verbatim>\<open>caches.delete\<close> on a name if and only if the
  name was enumerable, starts with the prefix and is neither current name; and every
  name with the prefix that is enumerable afterwards is one of the two current names.
\<close>

theorem activate_deletes_stale:
  "storage (activate_listener st) =
     filter (\<lambda>(n, c). \<not> (prefix ''shopify-theme-'' n \<and> n \<noteq> STATIC_CACHE \<and> n \<noteq> DYNAMIC_CACHE))
       (storage st) \<and>
   (\<forall>n. CachesDelete n \<in> set (drop (length (trace st)) (trace (activate_listener st))) \<longleftrightarrow>
          n \<in> set (map fst (storage st)) \<and>
          prefix ''shopify-theme-'' n \<and> n \<noteq> STATIC_CACHE \<and> n \<noteq> DYNAMIC_CACHE) \<and>
   (\<forall>n \<in> set (map fst (storage (activate_listener st))).
          prefix ''shopify-theme-'' n \<longrightarrow> n = STATIC_CACHE \<or> n = DYNAMIC_CACHE)"
proof -
  have "storage (activate_listener st) =
     filter (\<lambda>(n, c). \<not> (prefix ''shopify-theme-'' n \<and> n \<noteq> STATIC_CACHE \<and> n \<noteq> DYNAMIC_CACHE))
       (storage st)"
    by (simp add: storage_activate is_stale_def split_def)
  moreover have "\<forall>n. CachesDelete n \<in> set (drop (length (trace st)) (trace (activate_listener st))) \<longleftrightarrow>
          n \<in> set (map fst (storage st)) \<and>
          prefix ''shopify-theme-'' n \<and> n \<noteq> STATIC_CACHE \<and> n \<noteq> DYNAMIC_CACHE"
    by (auto simp: trace_activate is_stale_def)
  moreover have "\<forall>n \<in> set (map fst (storage (activate_listener st))).
          prefix ''shopify-theme-'' n \<longrightarrow> n = STATIC_CACHE \<or> n = DYNAMIC_CACHE"
    by (auto simp: storage_activate is_stale_def)
  ultimately show ?thesis by blast
qed

theorem activate_deletes_stale_witness:
  "map fst (storage (activate_listener rotated_state)) =
     [''shopify-theme-v1-static'', ''shopify-theme-v1-dynamic'', ''fonts'']"
  using activate_deletes_stale[of rotated_state, THEN conjunct1]
  by (simp add: rotated_state_def STATIC_CACHE_def DYNAMIC_CACHE_def CACHE_VERSION_def)

text \<open>
  C9 (purge). The \<^verbatim>\<open>clearCache\<close> message runs to completion and leaves no generation at
  all: no key is stored in the static or the dynamic generation, and a lookup of any key
  in any generation, opened again, yields \<^verbatim>\<open>undefined\<close>.
\<close>

theorem clearCache_purges_all:
  "\<exists>st'. message_listener (Data (Some ''clearCache'')) st = Inr st' \<and>
         storage st' = [] \<and>
         (\<forall>k. stored STATIC_CACHE k st' = None \<and> stored DYNAMIC_CACHE k st' = None) \<and>
         (\<forall>name k. fst (cache_match name k (caches_open name st')) = Undefined)"
proof -
  let ?st' = "fold caches_delete (map fst (storage st)) (log CachesKeys st)"
  have run: "message_listener (Data (Some ''clearCache'')) st = Inr ?st'"
    by (simp add: message_listener_def caches_keys_def)
  have empty: "storage ?st' = []"
    by (simp add: storage_fold_caches_delete filter_empty_conv)
  then have absent: "stored name k ?st' = None" for name k
    by (simp add: stored_def entries_def)
  then have "fst (cache_match name k (caches_open name ?st')) = Undefined" for name k
    by (simp add: cache_match_def)
  with run empty absent show ?thesis
    by blast
qed

text \<open>
  C10 (other messages). A message whose \<^verbatim>\<open>action\<close> is neither \<^verbatim>\<open>skipWaiting\<close> nor
  \<^verbatim>\<open>clearCache\<close> (a missing action included) leaves the state as it is: the storage is
  the same and no call is recorded.
\<close>

theorem message_listener_other:
  assumes "action \<noteq> Some ''skipWaiting''" and "action \<noteq> Some ''clearCache''"
  shows "message_listener (Data action) st = Inr st"
  using assms by (simp add: message_listener_def)

theorem message_listener_other_witness:
  "message_listener (Data (Some ''ping'')) warm_state = Inr warm_state \<and>
   message_listener (Data None) warm_state = Inr warm_state"
  using message_listener_other[of "Some ''ping''" warm_state] message_listener_other[of None warm_state]
  by simp

end
